theory Spec2Isabelle
  imports Main "HOL-Library.Word"
begin

section \<open>The configuration resolver of \<open>config/settings.go\<close>\<close>

text \<open>
  A Go \<open>string\<close> is a sequence of bytes; it is modelled as \<^typ>\<open>string\<close>, a list of
  8-bit characters. The package-level variable \<open>config\<close> is a map of maps and the process
  environment is a map from names to values. The functions of the source read and write
  this state, so each of them takes the state of the process and returns it. An \<open>int\<close>
  has 64 bits. A panic of the Go runtime is a result of its own, \<open>Inl\<close> of a sum.
\<close>

subsection \<open>The functions of the Go standard library that the source calls\<close>

definition HasPrefix :: "string \<Rightarrow> string \<Rightarrow> bool" where
  \<comment> \<open>\<open>len(s) >= len(prefix) && s[:len(prefix)] == prefix\<close>\<close>
  "HasPrefix s p = (length p \<le> length s \<and> take (length p) s = p)"

definition HasSuffix :: "string \<Rightarrow> string \<Rightarrow> bool" where
  \<comment> \<open>\<open>len(s) >= len(suffix) && s[len(s)-len(suffix):] == suffix\<close>\<close>
  "HasSuffix s p = (length p \<le> length s \<and> drop (length s - length p) s = p)"

definition spaceRunes :: "string list" where
  \<comment> \<open>The UTF-8 encodings of the code points for which \<open>unicode.IsSpace\<close> holds:
      U+0009 to U+000D, U+0020, U+0085, U+00A0, U+1680, U+2000 to U+200A, U+2028,
      U+2029, U+202F, U+205F and U+3000.\<close>
  "spaceRunes =
     [
      [CHR 0x09], [CHR 0x0A], [CHR 0x0B], [CHR 0x0C], [CHR 0x0D], [CHR 0x20],
      [CHR 0xC2, CHR 0x85], [CHR 0xC2, CHR 0xA0],
      [CHR 0xE1, CHR 0x9A, CHR 0x80],
      [CHR 0xE2, CHR 0x80, CHR 0x80], [CHR 0xE2, CHR 0x80, CHR 0x81],
      [CHR 0xE2, CHR 0x80, CHR 0x82], [CHR 0xE2, CHR 0x80, CHR 0x83],
      [CHR 0xE2, CHR 0x80, CHR 0x84], [CHR 0xE2, CHR 0x80, CHR 0x85],
      [CHR 0xE2, CHR 0x80, CHR 0x86], [CHR 0xE2, CHR 0x80, CHR 0x87],
      [CHR 0xE2, CHR 0x80, CHR 0x88], [CHR 0xE2, CHR 0x80, CHR 0x89],
      [CHR 0xE2, CHR 0x80, CHR 0x8A],
      [CHR 0xE2, CHR 0x80, CHR 0xA8], [CHR 0xE2, CHR 0x80, CHR 0xA9],
      [CHR 0xE2, CHR 0x80, CHR 0xAF],
      [CHR 0xE2, CHR 0x81, CHR 0x9F],
      [CHR 0xE3, CHR 0x80, CHR 0x80]]"

definition leadingSpace :: "string \<Rightarrow> nat" where
  \<comment> \<open>The width in bytes of the white-space rune that \<open>s\<close> starts with, 0 when the first
      rune of \<open>s\<close> is not white space (an invalid byte decodes to U+FFFD, which is not).\<close>
  "leadingSpace s =
     (case find (HasPrefix s) spaceRunes of None \<Rightarrow> 0 | Some e \<Rightarrow> length e)"

definition trailingSpace :: "string \<Rightarrow> nat" where
  \<comment> \<open>The same for the last rune of \<open>s\<close>.\<close>
  "trailingSpace s =
     (case find (HasSuffix s) spaceRunes of None \<Rightarrow> 0 | Some e \<Rightarrow> length e)"

lemma find_spaceRunes_pos:
  assumes "find P spaceRunes = Some e"
  shows "0 < length e"
proof -
  from assms have "e \<in> set spaceRunes"
    by (auto simp: find_Some_iff)
  then show ?thesis
    by (auto simp: spaceRunes_def)
qed

lemma leadingSpace_less:
  assumes "leadingSpace s \<noteq> 0"
  shows "length s - leadingSpace s < length s"
proof -
  from assms obtain e where e: "find (HasPrefix s) spaceRunes = Some e"
    and w: "leadingSpace s = length e"
    by (auto simp: leadingSpace_def split: option.splits)
  from e have "HasPrefix s e" by (auto simp: find_Some_iff)
  then have "length e \<le> length s" by (simp add: HasPrefix_def)
  moreover have "0 < length e" by (rule find_spaceRunes_pos [OF e])
  ultimately show ?thesis using w by arith
qed

lemma trailingSpace_less:
  assumes "trailingSpace s \<noteq> 0"
  shows "length s - trailingSpace s < length s"
proof -
  from assms obtain e where e: "find (HasSuffix s) spaceRunes = Some e"
    and w: "trailingSpace s = length e"
    by (auto simp: trailingSpace_def split: option.splits)
  from e have "HasSuffix s e" by (auto simp: find_Some_iff)
  then have "length e \<le> length s" by (simp add: HasSuffix_def)
  moreover have "0 < length e" by (rule find_spaceRunes_pos [OF e])
  ultimately show ?thesis using w by arith
qed

function TrimLeftSpace :: "string \<Rightarrow> string" where
  \<comment> \<open>\<open>strings.TrimLeftFunc(s, unicode.IsSpace)\<close>\<close>
  "TrimLeftSpace s =
     (if leadingSpace s = 0 then s else TrimLeftSpace (drop (leadingSpace s) s))"
  by pat_completeness auto
termination
  by (relation "measure length") (auto simp: leadingSpace_less)

function TrimRightSpace :: "string \<Rightarrow> string" where
  \<comment> \<open>\<open>strings.TrimRightFunc(s, unicode.IsSpace)\<close>\<close>
  "TrimRightSpace s =
     (if trailingSpace s = 0 then s
      else TrimRightSpace (take (length s - trailingSpace s) s))"
  by pat_completeness auto
termination
  by (relation "measure length") (auto simp: trailingSpace_less)

declare TrimLeftSpace.simps [simp del] TrimRightSpace.simps [simp del]

definition TrimSpace :: "string \<Rightarrow> string" where
  \<comment> \<open>\<open>strings.TrimSpace\<close>: its ASCII fast path and its fallback both remove the white-space
      runes at the start of \<open>s\<close> and then those at the end of what is left.\<close>
  "TrimSpace s = TrimRightSpace (TrimLeftSpace s)"

definition Trim :: "string \<Rightarrow> string \<Rightarrow> string" where
  \<comment> \<open>\<open>strings.Trim(s, cutset)\<close> for a cutset of ASCII bytes: the bytes of the cutset are
      removed at the start (\<open>trimLeftASCII\<close>), then at the end (\<open>trimRightASCII\<close>).\<close>
  "Trim s cutset =
     rev (dropWhile (\<lambda>c. c \<in> set cutset) (rev (dropWhile (\<lambda>c. c \<in> set cutset) s)))"

definition SplitN2 :: "string \<Rightarrow> char \<Rightarrow> string list" where
  \<comment> \<open>\<open>strings.SplitN(s, sep, 2)\<close> for a separator of one byte: the parts before and after
      the first separator, or \<open>s\<close> alone when it has none.\<close>
  "SplitN2 s sep =
     (if sep \<in> set s
      then [takeWhile (\<lambda>c. c \<noteq> sep) s, drop 1 (dropWhile (\<lambda>c. c \<noteq> sep) s)]
      else [s])"

type_synonym caseMap = "string \<Rightarrow> string"

definition isASCII :: "string \<Rightarrow> bool" where
  "isASCII s = list_all (\<lambda>c. (of_char c :: nat) < 128) s"

definition upperByte :: "char \<Rightarrow> char" where
  "upperByte c =
     (let n = (of_char c :: nat) in if 97 \<le> n \<and> n \<le> 122 then char_of (n - 32) else c)"

definition lowerByte :: "char \<Rightarrow> char" where
  "lowerByte c =
     (let n = (of_char c :: nat) in if 65 \<le> n \<and> n \<le> 90 then char_of (n + 32) else c)"

definition ToUpper :: "caseMap \<Rightarrow> string \<Rightarrow> string" where
  \<comment> \<open>\<open>strings.ToUpper\<close>: a string of ASCII bytes is mapped byte by byte; any other string
      goes through \<open>strings.Map(unicode.ToUpper, s)\<close>, whose Unicode tables are not part
      of this repository and are taken as the parameter \<open>um\<close>.\<close>
  "ToUpper um s = (if isASCII s then map upperByte s else um s)"

definition ToLower :: "caseMap \<Rightarrow> string \<Rightarrow> string" where
  \<comment> \<open>\<open>strings.ToLower\<close>, with \<open>strings.Map(unicode.ToLower, s)\<close> as the parameter \<open>lm\<close>.\<close>
  "ToLower lm s = (if isASCII s then map lowerByte s else lm s)"

type_synonym goInt = "64 word"

definition digitChar :: "int \<Rightarrow> char" where
  \<comment> \<open>the digit \<open>d\<close> of the table \<open>"0123456789"\<close>\<close>
  "digitChar d = ''0123456789'' ! nat d"

function decimal :: "int \<Rightarrow> string" where
  \<comment> \<open>The decimal digits of a number that is not negative, without leading zeros.\<close>
  "decimal n = (if n < 10 then [digitChar n] else decimal (n div 10) @ [digitChar (n mod 10)])"
  by pat_completeness auto
termination
  by (relation "measure nat") auto

declare decimal.simps [simp del]

definition Sprintf_d :: "goInt \<Rightarrow> string" where
  \<comment> \<open>\<open>fmt.Sprintf("%d", v)\<close> for an \<open>int\<close> of 64 bits.\<close>
  "Sprintf_d v = (let i = sint v in if i < 0 then CHR ''-'' # decimal (- i) else decimal i)"

definition Sprintf_t :: "bool \<Rightarrow> string" where
  \<comment> \<open>\<open>fmt.Sprintf("%t", v)\<close>\<close>
  "Sprintf_t v = (if v then ''true'' else ''false'')"

definition isDigit :: "char \<Rightarrow> bool" where
  "isDigit c = (let n = (of_char c :: nat) in 48 \<le> n \<and> n \<le> 57)"

definition digitVal :: "char \<Rightarrow> int" where
  "digitVal c = of_char c - 48"

definition Atoi :: "string \<Rightarrow> goInt option" where
  \<comment> \<open>\<open>strconv.Atoi\<close> for an \<open>int\<close> of 64 bits: an optional sign, then one or more decimal
      digits, and a value from \<open>-2^63\<close> to \<open>2^63 - 1\<close>. \<open>None\<close> stands for a result with
      \<open>err != nil\<close> (a syntax or a range error: the source does not tell them apart).\<close>
  "Atoi s =
     (let neg = (s \<noteq> [] \<and> hd s = CHR ''-'');
          ds = (if s \<noteq> [] \<and> (hd s = CHR ''-'' \<or> hd s = CHR ''+'') then tl s else s)
      in if ds = [] then None
         else if list_all isDigit ds = False then None
         else let un = foldl (\<lambda>a c. 10 * a + digitVal c) 0 ds;
                  v = (if neg then - un else un)
              in if v < - (2 ^ 63) \<or> 2 ^ 63 \<le> v then None else Some (word_of_int v))"

subsection \<open>The state of the process\<close>

datatype error = Error string

datatype warning = WarnPath error | WarnParse error

datatype panic = SliceOutOfRange | NilMapAssignment

datatype any = AString string | AInt goInt | ABool bool

text \<open>
  \<open>config\<close> is the package-level variable of the source. \<open>environ\<close> is the environment of
  the process, as \<open>os.LookupEnv\<close> reads it. \<open>files\<close> gives, for a path, what \<open>os.Open\<close>
  and a \<open>bufio.Scanner\<close> over the opened file deliver: the error of \<open>os.Open\<close>, or the lines
  that \<open>scanner.Scan\<close> yields, in order, together with the final \<open>scanner.Err()\<close>.
  \<open>executable\<close> and \<open>getwd\<close> are the results of \<open>os.Executable\<close> and \<open>os.Getwd\<close>,
  \<open>stat\<close> tells for which paths \<open>os.Stat\<close> returns no error, and \<open>pathDir\<close> and \<open>pathJoin\<close>
  are \<open>filepath.Dir\<close> and \<open>filepath.Join\<close> of the platform. \<open>stdout\<close> collects the
  warnings printed.
  A value of type \<^typ>\<open>any\<close> is an \<open>interface{}\<close> that holds a string, an integer or a
  boolean.
\<close>

record world =
  config :: "string \<rightharpoonup> (string \<rightharpoonup> string)"
  environ :: "string \<rightharpoonup> string"
  files :: "string \<Rightarrow> error + (string list \<times> error option)"
  executable :: "error + string"
  getwd :: "error + string"
  stat :: "string \<Rightarrow> bool"
  pathDir :: "string \<Rightarrow> string"
  pathJoin :: "string list \<Rightarrow> string"
  stdout :: "warning list"

subsection \<open>\<open>getConfigFilePath\<close>, \<open>parseIniFile\<close> and \<open>init\<close>\<close>

definition getConfigFilePath :: "world \<Rightarrow> error + string" where
  \<comment> \<open>The message of the last error names the two paths that were tried.\<close>
  "getConfigFilePath w =
     (case executable w of
        Inl err \<Rightarrow> Inl err
      | Inr execPath \<Rightarrow>
          (let execDir = pathDir w execPath;
               configPath = pathJoin w [execDir, ''config.ini'']
           in if stat w configPath then Inr configPath
              else
                (case getwd w of
                   Inl err \<Rightarrow> Inl err
                 | Inr wd \<Rightarrow>
                     (let altConfigPath = pathJoin w [wd, ''config'', ''config.ini'']
                      in if stat w altConfigPath then Inr altConfigPath
                         else Inl (Error (''not found: '' @ configPath @ '', '' @ altConfigPath))))))"

definition slice :: "string \<Rightarrow> nat \<Rightarrow> nat \<Rightarrow> panic + string" where
  \<comment> \<open>\<open>s[i:j]\<close>, which panics unless \<open>i <= j <= len(s)\<close>\<close>
  "slice s i j =
     (if i \<le> j \<and> j \<le> length s then Inr (take (j - i) (drop i s)) else Inl SliceOutOfRange)"

definition quoteCutset :: "string" where
  \<comment> \<open>the cutset \<open>"\"'"\<close>: the double and the single quote\<close>
  "quoteCutset = [CHR 0x22, CHR 0x27]"

definition parseLine :: "string \<Rightarrow> world \<times> string \<Rightarrow> panic + (world \<times> string)" where
  \<comment> \<open>The body of the loop of \<open>parseIniFile\<close> on the token \<open>text\<close> of the scanner; the state of
      the loop is the process and \<open>currentSection\<close>.\<close>
  "parseLine text st =
     (let (w, currentSection) = st; line = TrimSpace text in
      if line = [] \<or> HasPrefix line '';'' \<or> HasPrefix line ''#'' then Inr (w, currentSection)
      else if HasPrefix line ''['' \<and> HasSuffix line '']'' then
        (case slice line 1 (length line - 1) of
           Inl p \<Rightarrow> Inl p
         | Inr inner \<Rightarrow>
             (let currentSection = TrimSpace inner in
              if config w currentSection = None
              then Inr (w\<lparr>config := (config w)(currentSection \<mapsto> Map.empty)\<rparr>, currentSection)
              else Inr (w, currentSection)))
      else
        (let parts = SplitN2 line (CHR ''='') in
         if length parts \<noteq> 2 then Inr (w, currentSection)
         else
           (let key = TrimSpace (parts ! 0);
                val = Trim (TrimSpace (parts ! 1)) quoteCutset in
            if currentSection \<noteq> [] then
              (case config w currentSection of
                 None \<Rightarrow> Inl NilMapAssignment
               | Some sectionMap \<Rightarrow>
                   Inr (w\<lparr>config := (config w)(currentSection \<mapsto> sectionMap(key \<mapsto> val))\<rparr>,
                        currentSection))
            else Inr (w, currentSection))))"

fun parseLines :: "string list \<Rightarrow> world \<times> string \<Rightarrow> panic + (world \<times> string)" where
  \<comment> \<open>the loop \<open>for scanner.Scan() { ... }\<close> over the lines the scanner yields\<close>
  "parseLines [] st = Inr st"
| "parseLines (text # rest) st =
     (case parseLine text st of Inl p \<Rightarrow> Inl p | Inr st' \<Rightarrow> parseLines rest st')"

definition parseIniFile :: "string \<Rightarrow> world \<Rightarrow> panic + (error option \<times> world)" where
  \<comment> \<open>The result is the returned \<open>error\<close> (\<open>None\<close> for \<open>nil\<close>) and the process afterwards.\<close>
  "parseIniFile filePath w =
     (case files w filePath of
        Inl err \<Rightarrow> Inr (Some err, w)
      | Inr (lines, scanErr) \<Rightarrow>
          (case parseLines lines (w, []) of
             Inl p \<Rightarrow> Inl p
           | Inr (w', currentSection) \<Rightarrow> Inr (scanErr, w')))"

definition init :: "world \<Rightarrow> panic + world" where
  "init w =
     (case getConfigFilePath w of
        Inl err \<Rightarrow> Inr (w\<lparr>stdout := stdout w @ [WarnPath err]\<rparr>)
      | Inr configFile \<Rightarrow>
          (case parseIniFile configFile w of
             Inl p \<Rightarrow> Inl p
           | Inr (None, w') \<Rightarrow> Inr w'
           | Inr (Some err, w') \<Rightarrow> Inr (w'\<lparr>stdout := stdout w' @ [WarnParse err]\<rparr>)))"

subsection \<open>\<open>GetConfig\<close> and the typed accessors\<close>

definition GetConfig :: "caseMap \<Rightarrow> string \<Rightarrow> string \<Rightarrow> any \<Rightarrow> world \<Rightarrow> any \<times> world" where
  "GetConfig um section key defaultValue w =
     (let envKey = ''APP_'' @ ToUpper um section @ ''_'' @ ToUpper um key in
      case environ w envKey of
        Some envValue \<Rightarrow> (AString envValue, w)
      | None \<Rightarrow>
          (case config w section of
             Some sectionMap \<Rightarrow>
               (case sectionMap key of
                  Some val \<Rightarrow> (AString val, w)
                | None \<Rightarrow> (defaultValue, w))
           | None \<Rightarrow> (defaultValue, w)))"

definition getIntConfig :: "caseMap \<Rightarrow> string \<Rightarrow> string \<Rightarrow> goInt \<Rightarrow> world \<Rightarrow> goInt \<times> world" where
  "getIntConfig um section key defaultValue w =
     (let (v, w') = GetConfig um section key (AString (Sprintf_d defaultValue)) w in
      case v of
        AString strVal \<Rightarrow>
          (case Atoi strVal of
             None \<Rightarrow> (defaultValue, w')
           | Some intVal \<Rightarrow> (intVal, w'))
      | _ \<Rightarrow> (defaultValue, w'))"

definition getBoolConfig ::
  "caseMap \<Rightarrow> caseMap \<Rightarrow> string \<Rightarrow> string \<Rightarrow> bool \<Rightarrow> world \<Rightarrow> bool \<times> world" where
  "getBoolConfig um lm section key defaultValue w =
     (let (v, w') = GetConfig um section key (AString (Sprintf_t defaultValue)) w in
      case v of
        AString strVal0 \<Rightarrow>
          (let strVal = ToLower lm (TrimSpace strVal0) in
           if strVal = ''true'' \<or> strVal = ''1'' \<or> strVal = ''yes'' \<or> strVal = ''on''
           then (True, w')
           else if strVal = ''false'' \<or> strVal = ''0'' \<or> strVal = ''no'' \<or> strVal = ''off''
           then (False, w')
           else (defaultValue, w'))
      | _ \<Rightarrow> (defaultValue, w'))"

subsection \<open>The kinds of line that \<open>parseIniFile\<close> tells apart\<close>

text \<open>
  The loop of \<open>parseIniFile\<close> looks at the trimmed line: it skips a blank line and a
  comment, takes a line in brackets as a section header, and splits any other line at the
  first \<open>=\<close>. The following names are used to state what the loop does in each case.
\<close>

definition isSkipped :: "string \<Rightarrow> bool" where
  "isSkipped line = (line = [] \<or> HasPrefix line '';'' \<or> HasPrefix line ''#'')"

definition isHeader :: "string \<Rightarrow> bool" where
  "isHeader line = (HasPrefix line ''['' \<and> HasSuffix line '']'')"

definition headerName :: "string \<Rightarrow> string" where
  \<comment> \<open>\<open>strings.TrimSpace(line[1 : len(line)-1])\<close>\<close>
  "headerName line = TrimSpace (take (length line - 2) (drop 1 line))"

definition isKeyValue :: "string \<Rightarrow> bool" where
  "isKeyValue line = (isSkipped line = False \<and> isHeader line = False \<and> CHR ''='' \<in> set line)"

definition keyOf :: "string \<Rightarrow> string" where
  \<comment> \<open>\<open>strings.TrimSpace(parts[0])\<close>\<close>
  "keyOf line = TrimSpace (SplitN2 line (CHR ''='') ! 0)"

definition valueOf :: "string \<Rightarrow> string" where
  \<comment> \<open>\<open>strings.Trim(strings.TrimSpace(parts[1]), "\"'")\<close>\<close>
  "valueOf line = Trim (TrimSpace (SplitN2 line (CHR ''='') ! 1)) quoteCutset"

definition dirOf :: "string \<Rightarrow> string" where
  \<comment> \<open>the path without its last element, for the paths of the examples\<close>
  "dirOf p = rev (drop 1 (dropWhile (\<lambda>c. c \<noteq> CHR ''/'') (rev p)))"

definition joinSlash :: "string list \<Rightarrow> string" where
  \<comment> \<open>the elements with a slash between them, for the paths of the examples\<close>
  "joinSlash elems = (case elems of [] \<Rightarrow> [] | e # es \<Rightarrow> foldl (\<lambda>a b. a @ ''/'' @ b) e es)"

definition emptyWorld :: world where
  \<comment> \<open>A process at its start: \<open>config\<close> is the empty map that \<open>make\<close> returns; the
      environment is empty and there is no file at all. The executable is \<open>/app/server\<close>
      and the working directory is \<open>/srv\<close>.\<close>
  "emptyWorld =
     \<lparr>config = Map.empty, environ = Map.empty, files = (\<lambda>p. Inl (Error ''open'')),
      executable = Inr ''/app/server'', getwd = Inr ''/srv'', stat = (\<lambda>p. False),
      pathDir = dirOf, pathJoin = joinSlash, stdout = []\<rparr>"

definition stored :: "panic + (world \<times> string) \<Rightarrow> string \<Rightarrow> string \<Rightarrow> string option" where
  \<comment> \<open>the value that the store holds for \<open>section[key]\<close> when the loop has ended\<close>
  "stored r section key =
     (case r of
        Inl p \<Rightarrow> None
      | Inr (w, currentSection) \<Rightarrow>
          (case config w section of None \<Rightarrow> None | Some sectionMap \<Rightarrow> sectionMap key))"

definition hasSection :: "panic + (world \<times> string) \<Rightarrow> string \<Rightarrow> bool" where
  \<comment> \<open>whether the store has a map for \<open>section\<close> when the loop has ended\<close>
  "hasSection r section =
     (case r of
        Inl p \<Rightarrow> False
      | Inr (w, currentSection) \<Rightarrow>
          (case config w section of None \<Rightarrow> False | Some sectionMap \<Rightarrow> True))"

definition worldWithFile :: "string list \<Rightarrow> error option \<Rightarrow> world" where
  \<comment> \<open>A process at its start with the one file \<open>/srv/config/config.ini\<close>; the scanner
      yields \<open>lines\<close> and then ends with \<open>scanErr\<close>.\<close>
  "worldWithFile lines scanErr =
     emptyWorld\<lparr>files := (\<lambda>p. if p = ''/srv/config/config.ini'' then Inr (lines, scanErr)
                           else Inl (Error ''open'')),
                stat := (\<lambda>p. p = ''/srv/config/config.ini'')\<rparr>"

definition envWorld :: world where
  \<comment> \<open>A process whose store holds \<open>app.port = 8080\<close> and whose environment sets
      \<open>APP_APP_PORT\<close> to the empty string and \<open>APP_APP_DEBUG\<close> to \<open>" On "\<close>.\<close>
  "envWorld =
     emptyWorld\<lparr>config := [''app'' \<mapsto> [''port'' \<mapsto> ''8080'']],
                environ := [''APP_APP_PORT'' \<mapsto> [], ''APP_APP_DEBUG'' \<mapsto> '' On '']\<rparr>"

definition badWorld :: world where
  \<comment> \<open>A process whose store holds \<open>app.port = not-a-number\<close> and \<open>app.debug = maybe\<close>,
      with an empty environment.\<close>
  "badWorld =
     emptyWorld\<lparr>config := [''app'' \<mapsto> [''port'' \<mapsto> ''not-a-number'', ''debug'' \<mapsto> ''maybe'']]\<rparr>"

definition appWorld :: world where
  \<comment> \<open>A process whose store holds \<open>app.port = 8080\<close> and \<open>app.debug = YES\<close>, with an empty
      environment.\<close>
  "appWorld =
     emptyWorld\<lparr>config := [''app'' \<mapsto> [''port'' \<mapsto> ''8080'', ''debug'' \<mapsto> ''YES'']]\<rparr>"

definition retains :: "(string \<rightharpoonup> (string \<rightharpoonup> string)) \<Rightarrow> (string \<rightharpoonup> (string \<rightharpoonup> string)) \<Rightarrow> bool" where
  \<comment> \<open>every section and every key of the store \<open>c\<close> is a section and a key of \<open>c'\<close>\<close>
  "retains c c' =
     (\<forall>s m. c s = Some m \<longrightarrow> (\<exists>m'. c' s = Some m' \<and> dom m \<subseteq> dom m'))"

definition spec_stripQuotes :: "string \<Rightarrow> string" where
  \<comment> \<open>The rule in the words of the specification, to compare with \<open>Trim\<close>: only a pair of
      matching quote characters around the value is removed.\<close>
  "spec_stripQuotes v =
     (if 2 \<le> length v \<and> hd v = last v \<and> (hd v = CHR 0x22 \<or> hd v = CHR 0x27)
      then butlast (tl v) else v)"

subsection \<open>The loop body, case by case\<close>

lemma isHeader_length:
  assumes "isHeader line"
  shows "2 \<le> length line"
proof (rule ccontr)
  assume "\<not> 2 \<le> length line"
  moreover from assms have "1 \<le> length line" and p: "take 1 line = ''[''"
    and q: "drop (length line - 1) line = '']''"
    by (simp_all add: isHeader_def HasPrefix_def HasSuffix_def)
  ultimately have "length line = 1" by arith
  with p q show False by simp
qed

lemma isHeader_not_skipped:
  assumes "isHeader line"
  shows "\<not> isSkipped line"
proof -
  from assms have "take 1 line = ''[''"
    by (simp add: isHeader_def HasPrefix_def)
  then show ?thesis
    by (auto simp: isSkipped_def HasPrefix_def)
qed

lemma isHeader_slice:
  assumes "isHeader line"
  shows "slice line (Suc 0) (length line - Suc 0) =
           Inr (take (length line - 2) (drop (Suc 0) line))"
proof -
  have "2 \<le> length line" by (rule isHeader_length [OF assms])
  then have "Suc 0 \<le> length line - Suc 0" and "length line - Suc 0 - Suc 0 = length line - 2"
    by arith+
  then show ?thesis by (simp add: slice_def)
qed

lemma parseLine_cases:
  "parseLine text (w, cur) =
     (if isSkipped (TrimSpace text) then Inr (w, cur)
      else if isHeader (TrimSpace text) then
        Inr (if config w (headerName (TrimSpace text)) = None
             then w\<lparr>config := (config w)(headerName (TrimSpace text) \<mapsto> Map.empty)\<rparr>
             else w,
             headerName (TrimSpace text))
      else if CHR ''='' \<notin> set (TrimSpace text) then Inr (w, cur)
      else if cur = [] then Inr (w, cur)
      else (case config w cur of
              None \<Rightarrow> Inl NilMapAssignment
            | Some m \<Rightarrow>
                Inr (w\<lparr>config :=
                         (config w)(cur \<mapsto> m(keyOf (TrimSpace text) \<mapsto> valueOf (TrimSpace text)))\<rparr>,
                     cur)))"
proof (cases "isHeader (TrimSpace text)")
  case True
  have ns: "\<not> isSkipped (TrimSpace text)" by (rule isHeader_not_skipped [OF True])
  from ns have a: "TrimSpace text \<noteq> []" "\<not> HasPrefix (TrimSpace text) '';''"
    "\<not> HasPrefix (TrimSpace text) ''#''"
    by (simp_all add: isSkipped_def)
  from True have b: "HasPrefix (TrimSpace text) ''[''" "HasSuffix (TrimSpace text) '']''"
    by (simp_all add: isHeader_def)
  show ?thesis
    unfolding parseLine_def
    by (simp add: a b ns True isHeader_slice [OF True] headerName_def Let_def)
next
  case False
  then have b: "(HasPrefix (TrimSpace text) ''['' \<and> HasSuffix (TrimSpace text) '']'') = False"
    by (simp add: isHeader_def)
  have c: "(TrimSpace text = [] \<or> HasPrefix (TrimSpace text) '';'' \<or> HasPrefix (TrimSpace text) ''#'')
             = isSkipped (TrimSpace text)"
    by (simp add: isSkipped_def)
  show ?thesis
    unfolding parseLine_def Let_def prod.case c b
    by (simp add: False SplitN2_def keyOf_def valueOf_def split: option.splits)
qed

lemma parseLine_header:
  assumes "isHeader (TrimSpace text)"
  shows "parseLine text (w, cur) =
           Inr (if config w (headerName (TrimSpace text)) = None
                then w\<lparr>config := (config w)(headerName (TrimSpace text) \<mapsto> Map.empty)\<rparr>
                else w,
                headerName (TrimSpace text))"
  using assms isHeader_not_skipped [OF assms] by (simp add: parseLine_cases)

lemma parseLine_no_equals:
  assumes "isSkipped (TrimSpace text) = False" and "isHeader (TrimSpace text) = False"
    and "CHR ''='' \<notin> set (TrimSpace text)"
  shows "parseLine text (w, cur) = Inr (w, cur)"
  using assms by (simp add: parseLine_cases)

lemma parseLine_key_value:
  assumes "isKeyValue (TrimSpace text)" and "cur \<noteq> []" and "config w cur = Some m"
  shows "parseLine text (w, cur) =
           Inr (w\<lparr>config := (config w)(cur \<mapsto> m(keyOf (TrimSpace text) \<mapsto> valueOf (TrimSpace text)))\<rparr>,
                cur)"
  using assms by (simp add: parseLine_cases isKeyValue_def)

lemma parseLine_no_section:
  assumes "isHeader (TrimSpace text) = False"
  shows "parseLine text (w, []) = Inr (w, [])"
  using assms by (simp add: parseLine_cases)

lemma parseLine_empty_header:
  assumes "isHeader (TrimSpace text)" and "headerName (TrimSpace text) = []"
    and "config w [] = Some m"
  shows "parseLine text (w, cur) = Inr (w, [])"
  using assms by (simp add: parseLine_header)

subsection \<open>The loop\<close>

lemma parseLines_append:
  "parseLines (xs @ ys) st =
     (case parseLines xs st of Inl p \<Rightarrow> Inl p | Inr st' \<Rightarrow> parseLines ys st')"
  by (induction xs arbitrary: st) (auto split: sum.splits)

lemma parseLines_discard:
  assumes "\<forall>t\<in>set ls. isHeader (TrimSpace t) \<longrightarrow>
             headerName (TrimSpace t) = [] \<and> config w [] \<noteq> None"
  shows "parseLines ls (w, []) = Inr (w, [])"
  using assms
proof (induction ls)
  case Nil
  show ?case by simp
next
  case (Cons t ls)
  have "parseLine t (w, []) = Inr (w, [])"
  proof (cases "isHeader (TrimSpace t)")
    case True
    with Cons.prems obtain m where "headerName (TrimSpace t) = []" and "config w [] = Some m"
      by auto
    with True show ?thesis by (simp add: parseLine_empty_header)
  next
    case False
    then show ?thesis by (simp add: parseLine_no_section)
  qed
  moreover have "parseLines ls (w, []) = Inr (w, [])"
  proof (rule Cons.IH)
    from Cons.prems
    show "\<forall>t\<in>set ls. isHeader (TrimSpace t) \<longrightarrow>
            headerName (TrimSpace t) = [] \<and> config w [] \<noteq> None"
      by simp
  qed
  ultimately show ?case by simp
qed

lemma parseLines_key_values:
  assumes "\<forall>t\<in>set kvs. isKeyValue (TrimSpace t)" and "sec \<noteq> []" and "config w sec = Some m"
  shows "parseLines kvs (w, sec) =
           Inr (w\<lparr>config := (config w)(sec \<mapsto>
                      foldl (\<lambda>sm t. sm(keyOf (TrimSpace t) \<mapsto> valueOf (TrimSpace t))) m kvs)\<rparr>,
                sec)"
  using assms
proof (induction kvs arbitrary: w m)
  case Nil
  then have "(config w)(sec \<mapsto> m) = config w" by (simp add: fun_upd_idem)
  then show ?case by simp
next
  case (Cons t kvs)
  define m1 where "m1 = m(keyOf (TrimSpace t) \<mapsto> valueOf (TrimSpace t))"
  define w1 where "w1 = w\<lparr>config := (config w)(sec \<mapsto> m1)\<rparr>"
  from Cons.prems have "isKeyValue (TrimSpace t)" by simp
  with Cons.prems have step: "parseLine t (w, sec) = Inr (w1, sec)"
    by (simp add: parseLine_key_value w1_def m1_def)
  have c1: "config w1 sec = Some m1" by (simp add: w1_def)
  from Cons.prems have "\<forall>t\<in>set kvs. isKeyValue (TrimSpace t)" by simp
  from Cons.IH [OF this Cons.prems(2) c1]
  have ih: "parseLines kvs (w1, sec) =
          Inr (w1\<lparr>config := (config w1)(sec \<mapsto>
                 foldl (\<lambda>sm t. sm(keyOf (TrimSpace t) \<mapsto> valueOf (TrimSpace t))) m1 kvs)\<rparr>,
               sec)" .
  have r: "\<And>x. w1\<lparr>config := (config w1)(sec \<mapsto> x)\<rparr> = w\<lparr>config := (config w)(sec \<mapsto> x)\<rparr>"
    by (simp add: w1_def)
  have f: "foldl (\<lambda>sm t. sm(keyOf (TrimSpace t) \<mapsto> valueOf (TrimSpace t))) m (t # kvs) =
           foldl (\<lambda>sm t. sm(keyOf (TrimSpace t) \<mapsto> valueOf (TrimSpace t))) m1 kvs"
    by (simp add: m1_def)
  have e: "parseLines (t # kvs) (w, sec) = parseLines kvs (w1, sec)"
    using step by simp
  show ?case unfolding e ih r f by (rule refl)
qed

lemma assignments_other_key:
  assumes "k \<notin> (\<lambda>t. keyOf (TrimSpace t)) ` set kvs"
  shows "foldl (\<lambda>sm t. sm(keyOf (TrimSpace t) \<mapsto> valueOf (TrimSpace t))) m kvs k = m k"
  using assms by (induction kvs arbitrary: m) auto

lemma retains_refl: "retains c c"
  by (auto simp: retains_def)

lemma retains_trans:
  assumes "retains a b" and "retains b c"
  shows "retains a c"
  unfolding retains_def
proof (intro allI impI)
  fix s m
  assume "a s = Some m"
  with assms(1) have "\<exists>m1. b s = Some m1 \<and> dom m \<subseteq> dom m1"
    unfolding retains_def by blast
  then obtain m1 where b: "b s = Some m1" and d1: "dom m \<subseteq> dom m1"
    by blast
  from assms(2) b have "\<exists>m2. c s = Some m2 \<and> dom m1 \<subseteq> dom m2"
    unfolding retains_def by blast
  then obtain m2 where "c s = Some m2" and "dom m1 \<subseteq> dom m2"
    by blast
  with d1 show "\<exists>m'. c s = Some m' \<and> dom m \<subseteq> dom m'"
    by blast
qed

lemma parseLine_total:
  assumes "cur \<noteq> [] \<longrightarrow> config w cur \<noteq> None"
  shows "\<exists>w' cur'. parseLine text (w, cur) = Inr (w', cur') \<and>
           (cur' \<noteq> [] \<longrightarrow> config w' cur' \<noteq> None) \<and>
           w' = w\<lparr>config := config w'\<rparr> \<and> retains (config w) (config w')"
proof (cases "isHeader (TrimSpace text)")
  case True
  show ?thesis
    unfolding parseLine_header [OF True]
    by (auto simp: retains_def)
next
  case False
  show ?thesis
  proof (cases "isKeyValue (TrimSpace text) \<and> cur \<noteq> []")
    case True
    with assms obtain m where m: "config w cur = Some m" by auto
    from True have kv: "isKeyValue (TrimSpace text)" and c: "cur \<noteq> []" by simp_all
    show ?thesis
      unfolding parseLine_key_value [OF kv c m] using m
      by (auto simp: retains_def)
  next
    case other: False
    with False have "parseLine text (w, cur) = Inr (w, cur)"
      by (auto simp: parseLine_cases isKeyValue_def)
    with assms show ?thesis by (simp add: retains_refl)
  qed
qed

lemma parseLines_total:
  assumes "cur \<noteq> [] \<longrightarrow> config w cur \<noteq> None"
  shows "\<exists>w' cur'. parseLines ls (w, cur) = Inr (w', cur') \<and>
           (cur' \<noteq> [] \<longrightarrow> config w' cur' \<noteq> None) \<and>
           w' = w\<lparr>config := config w'\<rparr> \<and> retains (config w) (config w')"
  using assms
proof (induction ls arbitrary: w cur)
  case Nil
  then show ?case by (simp add: retains_refl)
next
  case (Cons t ls)
  from parseLine_total [OF Cons.prems, of t]
  obtain w1 c1 where s: "parseLine t (w, cur) = Inr (w1, c1)"
    and i1: "c1 \<noteq> [] \<longrightarrow> config w1 c1 \<noteq> None"
    and f1: "w1 = w\<lparr>config := config w1\<rparr>" and r1: "retains (config w) (config w1)"
    by blast
  from Cons.IH [OF i1]
  obtain w2 c2 where l: "parseLines ls (w1, c1) = Inr (w2, c2)"
    and i2: "c2 \<noteq> [] \<longrightarrow> config w2 c2 \<noteq> None"
    and f2: "w2 = w1\<lparr>config := config w2\<rparr>" and r2: "retains (config w1) (config w2)"
    by blast
  from s l have "parseLines (t # ls) (w, cur) = Inr (w2, c2)" by simp
  moreover from f1 f2 have "w2 = w\<lparr>config := config w2\<rparr>"
    by (metis world.update_convs(1) world.surjective)
  moreover from r1 r2 have "retains (config w) (config w2)" by (rule retains_trans)
  ultimately show ?case using i2 by blast
qed

subsection \<open>Files of two lines\<close>

lemma parse_header_and_line:
  assumes "config w = Map.empty" and "isHeader (TrimSpace h)"
    and "headerName (TrimSpace h) = sec" and "sec \<noteq> []" and "isKeyValue (TrimSpace l)"
  shows "parseLines [h, l] (w, []) =
           Inr (w\<lparr>config := [sec \<mapsto> [keyOf (TrimSpace l) \<mapsto> valueOf (TrimSpace l)]]\<rparr>, sec)"
proof -
  define w1 where "w1 = w\<lparr>config := (config w)(sec \<mapsto> Map.empty)\<rparr>"
  have s1: "parseLine h (w, []) = Inr (w1, sec)"
    unfolding parseLine_header [OF assms(2)] assms(3) w1_def by (simp add: assms(1))
  have c1: "config w1 sec = Some Map.empty" by (simp add: w1_def)
  have s2: "parseLine l (w1, sec) =
              Inr (w1\<lparr>config := (config w1)(sec \<mapsto>
                     [keyOf (TrimSpace l) \<mapsto> valueOf (TrimSpace l)])\<rparr>, sec)"
    by (rule parseLine_key_value [OF assms(5,4) c1])
  have e: "w1\<lparr>config := (config w1)(sec \<mapsto> [keyOf (TrimSpace l) \<mapsto> valueOf (TrimSpace l)])\<rparr> =
           w\<lparr>config := [sec \<mapsto> [keyOf (TrimSpace l) \<mapsto> valueOf (TrimSpace l)]]\<rparr>"
    by (simp add: w1_def assms(1))
  from s1 s2 show ?thesis unfolding e by simp
qed

lemma parse_app_port:
  assumes "config w = Map.empty"
  shows "parseLines [''[app]'', ''port = 8080''] (w, []) =
           Inr (w\<lparr>config := [''app'' \<mapsto> [''port'' \<mapsto> ''8080'']]\<rparr>, ''app'')"
proof -
  have h: "isHeader (TrimSpace ''[app]'')" and n: "headerName (TrimSpace ''[app]'') = ''app''"
    by code_simp+
  have kv: "isKeyValue (TrimSpace ''port = 8080'')"
    and k: "keyOf (TrimSpace ''port = 8080'') = ''port''"
    and v: "valueOf (TrimSpace ''port = 8080'') = ''8080''"
    by code_simp+
  have "''app'' \<noteq> []" by simp
  from parse_header_and_line [OF assms h n this kv] show ?thesis
    unfolding k v .
qed

lemma parse_app_debug:
  assumes "config w = Map.empty"
  shows "parseLines [''[app]'', ''debug = YES''] (w, []) =
           Inr (w\<lparr>config := [''app'' \<mapsto> [''debug'' \<mapsto> ''YES'']]\<rparr>, ''app'')"
proof -
  have h: "isHeader (TrimSpace ''[app]'')" and n: "headerName (TrimSpace ''[app]'') = ''app''"
    by code_simp+
  have kv: "isKeyValue (TrimSpace ''debug = YES'')"
    and k: "keyOf (TrimSpace ''debug = YES'') = ''debug''"
    and v: "valueOf (TrimSpace ''debug = YES'') = ''YES''"
    by code_simp+
  have "''app'' \<noteq> []" by simp
  from parse_header_and_line [OF assms h n this kv] show ?thesis
    unfolding k v .
qed

lemma getConfigFilePath_worldWithFile:
  "getConfigFilePath (worldWithFile lines scanErr) = Inr ''/srv/config/config.ini''"
proof -
  have a: "joinSlash [dirOf ''/app/server'', ''config.ini''] = ''/app/config.ini''"
    and b: "joinSlash [''/srv'', ''config'', ''config.ini''] = ''/srv/config/config.ini''"
    by code_simp+
  show ?thesis
    by (simp add: getConfigFilePath_def worldWithFile_def emptyWorld_def a b)
qed

lemma init_parsed:
  assumes "getConfigFilePath w = Inr path" and "files w path = Inr (lines, None)"
    and "parseLines lines (w, []) = Inr (w', cur')"
  shows "init w = Inr w'"
  using assms by (simp add: init_def parseIniFile_def)

section \<open>The parser\<close>

text \<open>
  Claim C6. As long as no section header has been seen, \<open>currentSection\<close> is the empty
  string and the loop stores nothing: lines that are not section headers leave the store
  and \<open>currentSection\<close> as they were, the loop goes on with the lines that follow, and a
  file made of such lines only is parsed without an error and without a change of the
  process. A file that is the line \<open>port=1234\<close> gives a store with no section.
\<close>

theorem lines_before_first_header_discarded:
  assumes "\<forall>text\<in>set pre. isHeader (TrimSpace text) = False"
  shows "parseLines pre (w, []) = Inr (w, []) \<and>
         parseLines (pre @ rest) (w, []) = parseLines rest (w, []) \<and>
         (files w path = Inr (pre, None) \<longrightarrow> parseIniFile path w = Inr (None, w))"
proof -
  from assms have d: "parseLines pre (w, []) = Inr (w, [])"
    by (intro parseLines_discard) simp
  then show ?thesis
    by (simp add: parseLines_append parseIniFile_def)
qed

theorem lines_before_first_header_discarded_witness:
  "parseLines [''port=1234''] (emptyWorld, []) = Inr (emptyWorld, []) \<and>
   parseLines [''port=1234'', ''[app]''] (emptyWorld, []) = parseLines [''[app]''] (emptyWorld, []) \<and>
   parseIniFile ''/srv/config/config.ini'' (worldWithFile [''port=1234''] None) =
     Inr (None, worldWithFile [''port=1234''] None) \<and>
   init (worldWithFile [''port=1234''] None) = Inr (worldWithFile [''port=1234''] None) \<and>
   config (worldWithFile [''port=1234''] None) = Map.empty \<and>
   stdout (worldWithFile [''port=1234''] None) = []"
proof -
  have "isHeader (TrimSpace ''port=1234'') = False" by code_simp
  then have h: "\<forall>text\<in>set [''port=1234'']. isHeader (TrimSpace text) = False" by simp
  have f: "files (worldWithFile [''port=1234''] None) ''/srv/config/config.ini'' = Inr ([''port=1234''], None)"
    by (simp add: worldWithFile_def emptyWorld_def)
  note t = lines_before_first_header_discarded [OF h, of "worldWithFile [''port=1234''] None" "[]"
      "''/srv/config/config.ini''"]
  from t have l: "parseLines [''port=1234''] (worldWithFile [''port=1234''] None, []) =
                    Inr (worldWithFile [''port=1234''] None, [])"
    by blast
  have i: "init (worldWithFile [''port=1234''] None) = Inr (worldWithFile [''port=1234''] None)"
    by (rule init_parsed [OF getConfigFilePath_worldWithFile f l])
  from lines_before_first_header_discarded [OF h, of emptyWorld "[''[app]'']"] t f i
  show ?thesis by (simp add: worldWithFile_def emptyWorld_def)
qed

text \<open>
  Claim C9. A section header whose name is empty after trimming sets \<open>currentSection\<close>
  to the empty string and makes sure that the store has a section of that name (an empty
  map when there was none). The state of the loop is then the one in which no header has
  been seen, with that store: the lines that follow, up to the next header with a name
  that is not empty, change neither the store nor \<open>currentSection\<close>.
\<close>

theorem empty_header_discards:
  assumes "isHeader (TrimSpace text)" and "headerName (TrimSpace text) = []"
    and "\<forall>t\<in>set following. isHeader (TrimSpace t) \<longrightarrow> headerName (TrimSpace t) = []"
    and "w' = (if config w [] = None then w\<lparr>config := (config w)([] \<mapsto> Map.empty)\<rparr> else w)"
  shows "parseLine text (w, cur) = Inr (w', []) \<and>
         config w' [] \<noteq> None \<and>
         (config w [] = None \<longrightarrow> config w' [] = Some Map.empty) \<and>
         parseLines following (w', []) = Inr (w', []) \<and>
         parseLines (text # following @ rest) (w, cur) = parseLines rest (w', [])"
proof -
  from assms(1,2,4) have s: "parseLine text (w, cur) = Inr (w', [])"
    by (simp add: parseLine_header)
  from assms(4) have n: "config w' [] \<noteq> None"
    by (cases "config w []") auto
  from assms(4) have e: "config w [] = None \<longrightarrow> config w' [] = Some Map.empty"
    by simp
  from assms(3) n have d: "parseLines following (w', []) = Inr (w', [])"
    by (intro parseLines_discard) simp
  from s d have "parseLines (text # following @ rest) (w, cur) = parseLines rest (w', [])"
    by (simp add: parseLines_append)
  with s n e d show ?thesis by simp
qed

theorem empty_header_discards_witness:
  "parseLine ''[   ]'' (appWorld, ''app'') =
     Inr (appWorld\<lparr>config := (config appWorld)([] \<mapsto> Map.empty)\<rparr>, []) \<and>
   parseLines [''[   ]'', ''x = 1'', ''[]'', ''port = 1''] (appWorld, ''app'') =
     Inr (appWorld\<lparr>config := (config appWorld)([] \<mapsto> Map.empty)\<rparr>, [])"
proof -
  have h1: "isHeader (TrimSpace ''[   ]'')" and h2: "headerName (TrimSpace ''[   ]'') = []"
    by code_simp+
  have "isHeader (TrimSpace ''x = 1'') = False" and "isHeader (TrimSpace ''port = 1'') = False"
    and "headerName (TrimSpace ''[]'') = []"
    by code_simp+
  then have h3: "\<forall>t\<in>set [''x = 1'', ''[]'', ''port = 1''].
                   isHeader (TrimSpace t) \<longrightarrow> headerName (TrimSpace t) = []"
    by simp
  have h4: "appWorld\<lparr>config := (config appWorld)([] \<mapsto> Map.empty)\<rparr> =
              (if config appWorld [] = None
               then appWorld\<lparr>config := (config appWorld)([] \<mapsto> Map.empty)\<rparr> else appWorld)"
    by (simp add: appWorld_def)
  from empty_header_discards [OF h1 h2 h3 h4, of "''app''" "[]"]
  show ?thesis by simp
qed

text \<open>
  Claim C10, as amended. A section header whose name is not empty and is already a
  section of the store leaves the store as it is: the map of the section is kept. The
  key-value lines that follow it are assigned into that map, one after the other: a key
  that none of them assigns keeps the value it had, and a key that several of them
  assign has the value of the last one. The other sections are not touched.
\<close>

theorem repeated_header_merges:
  assumes "isHeader (TrimSpace text)" and "headerName (TrimSpace text) = sec" and "sec \<noteq> []"
    and "config w sec = Some m"
    and "\<forall>t\<in>set kvs. isKeyValue (TrimSpace t)"
  shows "parseLine text (w, cur) = Inr (w, sec) \<and>
         (\<exists>w'. parseLines (text # kvs) (w, cur) = Inr (w', sec) \<and>
               (\<forall>s. s \<noteq> sec \<longrightarrow> config w' s = config w s)) \<and>
         (\<forall>k. k \<notin> (\<lambda>t. keyOf (TrimSpace t)) ` set kvs \<longrightarrow>
               stored (parseLines (text # kvs) (w, cur)) sec k = m k) \<and>
         (\<forall>before t after.
               kvs = before @ t # after \<and>
               keyOf (TrimSpace t) \<notin> (\<lambda>t. keyOf (TrimSpace t)) ` set after \<longrightarrow>
               stored (parseLines (text # kvs) (w, cur)) sec (keyOf (TrimSpace t)) =
                 Some (valueOf (TrimSpace t)))"
proof -
  define m' where
    "m' = foldl (\<lambda>sm t. sm(keyOf (TrimSpace t) \<mapsto> valueOf (TrimSpace t))) m kvs"
  from assms(1,2,4) have s: "parseLine text (w, cur) = Inr (w, sec)"
    by (simp add: parseLine_header)
  have "parseLines kvs (w, sec) = Inr (w\<lparr>config := (config w)(sec \<mapsto> m')\<rparr>, sec)"
    unfolding m'_def by (rule parseLines_key_values [OF assms(5,3,4)])
  with s have r: "parseLines (text # kvs) (w, cur) = Inr (w\<lparr>config := (config w)(sec \<mapsto> m')\<rparr>, sec)"
    by simp
  have a: "\<exists>w'. parseLines (text # kvs) (w, cur) = Inr (w', sec) \<and>
             (\<forall>s. s \<noteq> sec \<longrightarrow> config w' s = config w s)"
    unfolding r by simp
  have l: "\<And>k. stored (parseLines (text # kvs) (w, cur)) sec k = m' k"
    unfolding r by (simp add: stored_def)
  have b: "\<forall>k. k \<notin> (\<lambda>t. keyOf (TrimSpace t)) ` set kvs \<longrightarrow>
             stored (parseLines (text # kvs) (w, cur)) sec k = m k"
    unfolding l m'_def by (simp add: assignments_other_key)
  have c: "\<forall>before t after.
             kvs = before @ t # after \<and>
             keyOf (TrimSpace t) \<notin> (\<lambda>t. keyOf (TrimSpace t)) ` set after \<longrightarrow>
             stored (parseLines (text # kvs) (w, cur)) sec (keyOf (TrimSpace t)) =
               Some (valueOf (TrimSpace t))"
    unfolding l m'_def by (auto simp: assignments_other_key)
  from s a b c show ?thesis by blast
qed

theorem repeated_header_merges_witness:
  "parseLine ''[app]'' (appWorld, ''db'') = Inr (appWorld, ''app'') \<and>
   stored (parseLines [''[app]'', ''port = 1'', ''x = 2'', ''port = 3''] (appWorld, ''db''))
     ''app'' ''debug'' = Some ''YES'' \<and>
   stored (parseLines [''[app]'', ''port = 1'', ''x = 2'', ''port = 3''] (appWorld, ''db''))
     ''app'' ''port'' = Some ''3'' \<and>
   stored (parseLines [''[app]'', ''port = 1'', ''x = 2'', ''port = 3''] (appWorld, ''db''))
     ''app'' ''x'' = Some ''2''"
proof -
  have h1: "isHeader (TrimSpace ''[app]'')" and h2: "headerName (TrimSpace ''[app]'') = ''app''"
    by code_simp+
  have h3: "''app'' \<noteq> []" by simp
  have h4: "config appWorld ''app'' = Some [''port'' \<mapsto> ''8080'', ''debug'' \<mapsto> ''YES'']"
    by (simp add: appWorld_def emptyWorld_def)
  have "isKeyValue (TrimSpace ''port = 1'')" and "isKeyValue (TrimSpace ''x = 2'')"
    and "isKeyValue (TrimSpace ''port = 3'')"
    by code_simp+
  then have h5: "\<forall>t\<in>set [''port = 1'', ''x = 2'', ''port = 3'']. isKeyValue (TrimSpace t)"
    by simp
  have k: "keyOf (TrimSpace ''port = 1'') = ''port''" "keyOf (TrimSpace ''x = 2'') = ''x''"
    "keyOf (TrimSpace ''port = 3'') = ''port''"
    by code_simp+
  have v: "valueOf (TrimSpace ''x = 2'') = ''2''" "valueOf (TrimSpace ''port = 3'') = ''3''"
    by code_simp+
  note t = repeated_header_merges [OF h1 h2 h3 h4 h5, of "''db''"]
  from t have a: "parseLine ''[app]'' (appWorld, ''db'') = Inr (appWorld, ''app'')"
    by blast
  from t have
    "''debug'' \<notin> (\<lambda>t. keyOf (TrimSpace t)) ` set [''port = 1'', ''x = 2'', ''port = 3''] \<longrightarrow>
     stored (parseLines [''[app]'', ''port = 1'', ''x = 2'', ''port = 3''] (appWorld, ''db''))
       ''app'' ''debug'' = [''port'' \<mapsto> ''8080'', ''debug'' \<mapsto> ''YES''] ''debug''"
    by blast
  then have b: "stored (parseLines [''[app]'', ''port = 1'', ''x = 2'', ''port = 3''] (appWorld, ''db''))
       ''app'' ''debug'' = Some ''YES''"
    by (simp add: k)
  from t have
    "[''port = 1'', ''x = 2'', ''port = 3''] = [''port = 1'', ''x = 2''] @ ''port = 3'' # [] \<and>
     keyOf (TrimSpace ''port = 3'') \<notin> (\<lambda>t. keyOf (TrimSpace t)) ` set [] \<longrightarrow>
     stored (parseLines [''[app]'', ''port = 1'', ''x = 2'', ''port = 3''] (appWorld, ''db''))
       ''app'' (keyOf (TrimSpace ''port = 3'')) = Some (valueOf (TrimSpace ''port = 3''))"
    by blast
  then have c: "stored (parseLines [''[app]'', ''port = 1'', ''x = 2'', ''port = 3''] (appWorld, ''db''))
       ''app'' ''port'' = Some ''3''"
    by (simp add: k v)
  from t have
    "[''port = 1'', ''x = 2'', ''port = 3''] = [''port = 1''] @ ''x = 2'' # [''port = 3''] \<and>
     keyOf (TrimSpace ''x = 2'') \<notin> (\<lambda>t. keyOf (TrimSpace t)) ` set [''port = 3''] \<longrightarrow>
     stored (parseLines [''[app]'', ''port = 1'', ''x = 2'', ''port = 3''] (appWorld, ''db''))
       ''app'' (keyOf (TrimSpace ''x = 2'')) = Some (valueOf (TrimSpace ''x = 2''))"
    by blast
  then have d: "stored (parseLines [''[app]'', ''port = 1'', ''x = 2'', ''port = 3''] (appWorld, ''db''))
       ''app'' ''x'' = Some ''2''"
    by (simp add: k v)
  from a b c d show ?thesis by simp
qed

text \<open>
  Claim C10 as it was stated does not hold for the empty name. After the header \<open>[]\<close>
  the store has a section named by the empty string. A second header \<open>[]\<close> meets a name
  that is already in the store, and the line \<open>x = 1\<close> that follows it is a key-value
  line; but \<open>currentSection\<close> is empty, so the loop drops the line and the key \<open>x\<close> is
  not merged into the map of that section.
\<close>

theorem empty_name_not_merged_counterexample:
  "hasSection (parseLines [''[]''] (emptyWorld, [])) [] \<and>
   isHeader (TrimSpace ''[]'') \<and> headerName (TrimSpace ''[]'') = [] \<and>
   isKeyValue (TrimSpace ''x = 1'') \<and>
   keyOf (TrimSpace ''x = 1'') = ''x'' \<and> valueOf (TrimSpace ''x = 1'') = ''1'' \<and>
   hasSection (parseLines [''[]'', ''[]'', ''x = 1''] (emptyWorld, [])) [] \<and>
   stored (parseLines [''[]'', ''[]'', ''x = 1''] (emptyWorld, [])) [] ''x'' = None \<and>
   stored (parseLines [''[]'', ''[]'', ''x = 1''] (emptyWorld, [])) [] ''x'' \<noteq>
     Some (valueOf (TrimSpace ''x = 1''))"
  by code_simp

text \<open>
  Claim C7. When the scanner stops with an error after it has delivered some lines,
  \<open>parseIniFile\<close> returns that error and \<open>init\<close> prints a warning and returns: neither
  panics. The store is the one that the loop has built from the lines delivered, and it
  still has every section and every key that was in it after any number of these lines.
  The rest of the process is as it was, with the one warning added to the output.
\<close>

theorem scan_error_keeps_parsed_store:
  assumes "getConfigFilePath w = Inr path" and "files w path = Inr (lines, Some err)"
  shows "\<exists>w' cur'.
           parseLines lines (w, []) = Inr (w', cur') \<and>
           parseIniFile path w = Inr (Some err, w') \<and>
           init w = Inr (w'\<lparr>stdout := stdout w @ [WarnParse err]\<rparr>) \<and>
           w' = w\<lparr>config := config w'\<rparr> \<and>
           (\<forall>n. \<exists>wn cn. parseLines (take n lines) (w, []) = Inr (wn, cn) \<and>
                         retains (config wn) (config w'))"
proof -
  have i0: "([]::string) \<noteq> [] \<longrightarrow> config w [] \<noteq> None" by simp
  from parseLines_total [OF i0, of lines]
  obtain w' cur' where l: "parseLines lines (w, []) = Inr (w', cur')"
    and f: "w' = w\<lparr>config := config w'\<rparr>"
    by blast
  from l assms(2) have p: "parseIniFile path w = Inr (Some err, w')"
    by (simp add: parseIniFile_def)
  from f have "stdout w' = stdout w"
    by (metis world.select_convs(9) world.surjective world.update_convs(1))
  with p assms(1) have i: "init w = Inr (w'\<lparr>stdout := stdout w @ [WarnParse err]\<rparr>)"
    by (simp add: init_def)
  have r: "\<exists>wn cn. parseLines (take n lines) (w, []) = Inr (wn, cn) \<and>
             retains (config wn) (config w')" for n
  proof -
    from parseLines_total [OF i0, of "take n lines"]
    obtain wn cn where a: "parseLines (take n lines) (w, []) = Inr (wn, cn)"
      and inv: "cn \<noteq> [] \<longrightarrow> config wn cn \<noteq> None"
      by blast
    from parseLines_total [OF inv, of "drop n lines"]
    obtain w2 c2 where b: "parseLines (drop n lines) (wn, cn) = Inr (w2, c2)"
      and ret: "retains (config wn) (config w2)"
      by blast
    have "parseLines (take n lines @ drop n lines) (w, []) = Inr (w2, c2)"
      unfolding parseLines_append a using b by simp
    with l have "w2 = w'" by simp
    with a ret show ?thesis by blast
  qed
  from l p i f r show ?thesis by blast
qed

theorem scan_error_keeps_parsed_store_witness:
  "init (worldWithFile [''[app]'', ''port = 8080''] (Some (Error ''token too long''))) =
     Inr ((worldWithFile [''[app]'', ''port = 8080''] (Some (Error ''token too long'')))
            \<lparr>config := [''app'' \<mapsto> [''port'' \<mapsto> ''8080'']],
             stdout := [WarnParse (Error ''token too long'')]\<rparr>)"
proof -
  define W where "W = worldWithFile [''[app]'', ''port = 8080''] (Some (Error ''token too long''))"
  have h1: "getConfigFilePath W = Inr ''/srv/config/config.ini''"
    unfolding W_def by (rule getConfigFilePath_worldWithFile)
  have h2: "files W ''/srv/config/config.ini'' = Inr ([''[app]'', ''port = 8080''], Some (Error ''token too long''))"
    by (simp add: W_def worldWithFile_def)
  have c: "config W = Map.empty" and o: "stdout W = []"
    by (simp_all add: W_def worldWithFile_def emptyWorld_def)
  from scan_error_keeps_parsed_store [OF h1 h2]
  obtain w' cur' where a: "parseLines [''[app]'', ''port = 8080''] (W, []) = Inr (w', cur')"
    and i: "init W = Inr (w'\<lparr>stdout := stdout W @ [WarnParse (Error ''token too long'')]\<rparr>)"
    by blast
  have "Inr (w', cur') = parseLines [''[app]'', ''port = 8080''] (W, [])"
    using a by (rule sym)
  also have "\<dots> = Inr (W\<lparr>config := [''app'' \<mapsto> [''port'' \<mapsto> ''8080'']]\<rparr>, ''app'')"
    by (rule parse_app_port [OF c])
  finally have "w' = W\<lparr>config := [''app'' \<mapsto> [''port'' \<mapsto> ''8080'']]\<rparr>" by simp
  with i o show ?thesis unfolding W_def by simp
qed

lemma SplitN2_first_equals:
  assumes "CHR ''='' \<notin> set k"
  shows "SplitN2 (k @ ''='' @ v) (CHR ''='') = [k, v]"
proof -
  from assms have p: "\<And>c. c \<in> set k \<Longrightarrow> c \<noteq> CHR ''=''" by auto
  have "takeWhile (\<lambda>c. c \<noteq> CHR ''='') (k @ CHR ''='' # v) = k"
    using p by (simp add: takeWhile_append2)
  moreover have "dropWhile (\<lambda>c. c \<noteq> CHR ''='') (k @ CHR ''='' # v) = CHR ''='' # v"
    using p by (simp add: dropWhile_append2)
  ultimately show ?thesis by (simp add: SplitN2_def)
qed

lemma Trim_decompose:
  "\<exists>pre post. s = pre @ Trim s cs @ post \<and> set pre \<subseteq> set cs \<and> set post \<subseteq> set cs \<and>
     (Trim s cs = [] \<or> (hd (Trim s cs) \<notin> set cs \<and> last (Trim s cs) \<notin> set cs))"
proof -
  define P where "P = (\<lambda>c. c \<in> set cs)"
  define t where "t = dropWhile P s"
  define pre where "pre = takeWhile P s"
  define post where "post = rev (takeWhile P (rev t))"
  have T: "Trim s cs = rev (dropWhile P (rev t))"
    by (simp add: Trim_def P_def t_def)
  have "rev (takeWhile P (rev t) @ dropWhile P (rev t)) = rev (rev t)"
    by (simp only: takeWhile_dropWhile_id)
  then have "rev (dropWhile P (rev t)) @ rev (takeWhile P (rev t)) = t"
    by (simp only: rev_append rev_rev_ident)
  then have t_eq: "t = Trim s cs @ post" by (simp only: T post_def)
  have "s = pre @ t" by (simp add: pre_def t_def)
  with t_eq have a: "s = pre @ Trim s cs @ post" by simp
  have b: "set pre \<subseteq> set cs"
    using set_takeWhileD [of _ P s] by (auto simp: pre_def P_def)
  have c: "set post \<subseteq> set cs"
    using set_takeWhileD [of _ P "rev t"] by (auto simp: post_def P_def)
  have d: "hd (Trim s cs) \<notin> set cs \<and> last (Trim s cs) \<notin> set cs" if ne: "Trim s cs \<noteq> []"
  proof -
    from ne t_eq have "t \<noteq> []" and "hd (Trim s cs) = hd t" by auto
    moreover from \<open>t \<noteq> []\<close> have "\<not> P (hd t)"
      unfolding t_def by (rule hd_dropWhile)
    ultimately have h: "hd (Trim s cs) \<notin> set cs" by (simp add: P_def)
    from ne have n2: "dropWhile P (rev t) \<noteq> []" by (simp add: T)
    then have "\<not> P (hd (dropWhile P (rev t)))" by (rule hd_dropWhile)
    moreover from n2 have "last (Trim s cs) = hd (dropWhile P (rev t))"
      by (simp add: T last_rev)
    ultimately have "last (Trim s cs) \<notin> set cs" by (simp add: P_def)
    with h show ?thesis by simp
  qed
  from a b c d show ?thesis by blast
qed

text \<open>
  Claim C5, as amended. A line that is neither blank, nor a comment, nor a section header
  is skipped when it has no \<open>=\<close>. Otherwise it is split at its first \<open>=\<close>; the key is the
  trimmed left part; the value is the trimmed right part without the quote characters
  at its two ends, where all the double and single quotes found there are removed,
  however many there are and whether or not they pair up. Under a current section the
  value is stored for the key in the map of that section. The line \<open>name = "my app"\<close>
  stores \<open>my app\<close>.
\<close>

theorem key_value_line_stored:
  assumes "isSkipped (TrimSpace text) = False" and "isHeader (TrimSpace text) = False"
  shows "(CHR ''='' \<notin> set (TrimSpace text) \<longrightarrow> parseLine text (w, cur) = Inr (w, cur)) \<and>
         (\<forall>k v m. TrimSpace text = k @ ''='' @ v \<and> CHR ''='' \<notin> set k \<and>
                  cur \<noteq> [] \<and> config w cur = Some m \<longrightarrow>
            parseLine text (w, cur) =
              Inr (w\<lparr>config := (config w)(cur \<mapsto> m(TrimSpace k \<mapsto> Trim (TrimSpace v) quoteCutset))\<rparr>,
                   cur)) \<and>
         (\<forall>s. \<exists>pre post.
            s = pre @ Trim s quoteCutset @ post \<and>
            set pre \<subseteq> {CHR 0x22, CHR 0x27} \<and> set post \<subseteq> {CHR 0x22, CHR 0x27} \<and>
            (Trim s quoteCutset = [] \<or>
             (hd (Trim s quoteCutset) \<notin> {CHR 0x22, CHR 0x27} \<and>
              last (Trim s quoteCutset) \<notin> {CHR 0x22, CHR 0x27})))"
proof -
  have a: "CHR ''='' \<notin> set (TrimSpace text) \<longrightarrow> parseLine text (w, cur) = Inr (w, cur)"
    using assms by (simp add: parseLine_no_equals)
  have b: "parseLine text (w, cur) =
             Inr (w\<lparr>config := (config w)(cur \<mapsto> m(TrimSpace k \<mapsto> Trim (TrimSpace v) quoteCutset))\<rparr>,
                  cur)"
    if e: "TrimSpace text = k @ ''='' @ v" and k: "CHR ''='' \<notin> set k"
      and c: "cur \<noteq> []" and m: "config w cur = Some m" for k v m
  proof -
    from e have "CHR ''='' \<in> set (TrimSpace text)" by simp
    with assms have kv: "isKeyValue (TrimSpace text)" by (simp add: isKeyValue_def)
    have "SplitN2 (TrimSpace text) (CHR ''='') = [k, v]"
      unfolding e by (rule SplitN2_first_equals [OF k])
    then have "keyOf (TrimSpace text) = TrimSpace k"
      and "valueOf (TrimSpace text) = Trim (TrimSpace v) quoteCutset"
      by (simp_all add: keyOf_def valueOf_def)
    with parseLine_key_value [OF kv c m] show ?thesis by simp
  qed
  have q: "set quoteCutset = {CHR 0x22, CHR 0x27}" by (simp add: quoteCutset_def)
  have c: "\<exists>pre post.
            s = pre @ Trim s quoteCutset @ post \<and>
            set pre \<subseteq> {CHR 0x22, CHR 0x27} \<and> set post \<subseteq> {CHR 0x22, CHR 0x27} \<and>
            (Trim s quoteCutset = [] \<or>
             (hd (Trim s quoteCutset) \<notin> {CHR 0x22, CHR 0x27} \<and>
              last (Trim s quoteCutset) \<notin> {CHR 0x22, CHR 0x27}))" for s
    using Trim_decompose [of s quoteCutset] unfolding q .
  from a b c show ?thesis by blast
qed

theorem key_value_line_stored_witness:
  "parseLine (''name = '' @ [CHR 0x22] @ ''my app'' @ [CHR 0x22]) (appWorld, ''app'') =
     Inr (appWorld\<lparr>config := (config appWorld)(''app'' \<mapsto>
            [''port'' \<mapsto> ''8080'', ''debug'' \<mapsto> ''YES'', ''name'' \<mapsto> ''my app''])\<rparr>, ''app'')"
proof -
  define raw where "raw = ''name = '' @ [CHR 0x22] @ ''my app'' @ [CHR 0x22]"
  have h1: "isSkipped (TrimSpace raw) = False" and h2: "isHeader (TrimSpace raw) = False"
    unfolding raw_def by code_simp+
  have e: "TrimSpace raw = ''name '' @ ''='' @ ('' '' @ [CHR 0x22] @ ''my app'' @ [CHR 0x22])"
    unfolding raw_def by code_simp
  have k: "CHR ''='' \<notin> set ''name ''" by simp
  have c: "''app'' \<noteq> []" by simp
  have m: "config appWorld ''app'' = Some [''port'' \<mapsto> ''8080'', ''debug'' \<mapsto> ''YES'']"
    by (simp add: appWorld_def emptyWorld_def)
  have t1: "TrimSpace ''name '' = ''name''" by code_simp
  have t2: "Trim (TrimSpace ('' '' @ [CHR 0x22] @ ''my app'' @ [CHR 0x22])) quoteCutset = ''my app''"
    by code_simp
  from key_value_line_stored [OF h1 h2, of appWorld "''app''"] e k c m
  have "parseLine raw (appWorld, ''app'') =
          Inr (appWorld\<lparr>config := (config appWorld)(''app'' \<mapsto>
                 [''port'' \<mapsto> ''8080'', ''debug'' \<mapsto> ''YES'']
                   (TrimSpace ''name '' \<mapsto>
                    Trim (TrimSpace ('' '' @ [CHR 0x22] @ ''my app'' @ [CHR 0x22])) quoteCutset))\<rparr>,
               ''app'')"
    by blast
  then show ?thesis unfolding t1 t2 raw_def .
qed

text \<open>
  Claim C5 as it was stated does not hold: a value with a quote at one end only has no
  pair of matching quotes around it, and the quote is removed all the same.
\<close>

theorem unmatched_quote_counterexample:
  "stored (parseLines [''[app]'', ''name = '' @ [CHR 0x22] @ ''my app''] (emptyWorld, []))
     ''app'' ''name'' = Some ''my app'' \<and>
   spec_stripQuotes (TrimSpace ('' '' @ [CHR 0x22] @ ''my app'')) = [CHR 0x22] @ ''my app'' \<and>
   stored (parseLines [''[app]'', ''name = '' @ [CHR 0x22] @ ''my app''] (emptyWorld, []))
     ''app'' ''name'' \<noteq> Some (spec_stripQuotes (TrimSpace ('' '' @ [CHR 0x22] @ ''my app'')))"
  by code_simp

section \<open>The lookup\<close>

lemma envKey_app_port: "''APP_'' @ ToUpper um ''app'' @ ''_'' @ ToUpper um ''port'' = ''APP_APP_PORT''"
proof -
  have "isASCII ''app''" and "isASCII ''port''" by code_simp+
  moreover have "map upperByte ''app'' = ''APP''" and "map upperByte ''port'' = ''PORT''"
    by code_simp+
  ultimately show ?thesis by (simp add: ToUpper_def)
qed

lemma envKey_app_debug:
  "''APP_'' @ ToUpper um ''app'' @ ''_'' @ ToUpper um ''debug'' = ''APP_APP_DEBUG''"
proof -
  have "isASCII ''app''" and "isASCII ''debug''" by code_simp+
  moreover have "map upperByte ''app'' = ''APP''" and "map upperByte ''debug'' = ''DEBUG''"
    by code_simp+
  ultimately show ?thesis by (simp add: ToUpper_def)
qed

text \<open>
  Claim C1. Whenever the environment variable \<open>APP_<SECTION>_<KEY>\<close>, with the section and
  the key in upper case, is set, \<open>GetConfig\<close> returns its value as a string, whatever the
  store holds for the section and the key and whatever the default is. The value may be
  the empty string.
\<close>

theorem GetConfig_env_wins:
  assumes "environ w (''APP_'' @ ToUpper um section @ ''_'' @ ToUpper um key) = Some envValue"
  shows "fst (GetConfig um section key defaultValue w) = AString envValue"
  using assms by (simp add: GetConfig_def)

theorem GetConfig_env_wins_witness:
  "config envWorld ''app'' = Some [''port'' \<mapsto> ''8080''] \<and>
   environ envWorld ''APP_APP_PORT'' = Some [] \<and>
   fst (GetConfig id ''app'' ''port'' (AInt 50100) envWorld) = AString []"
proof -
  have h: "environ envWorld (''APP_'' @ ToUpper id ''app'' @ ''_'' @ ToUpper id ''port'') = Some []"
    unfolding envKey_app_port by (simp add: envWorld_def)
  from GetConfig_env_wins [OF h, of "AInt 50100"] show ?thesis
    by (simp add: envWorld_def)
qed

text \<open>
  Claim C2. When the environment variable \<open>APP_<SECTION>_<KEY>\<close> is not set and the store
  has no entry for the key in the section (the section is absent, or it is there without
  the key), \<open>GetConfig\<close> returns the default it was given, whether that is a string, an
  integer or a boolean, and the process is left as it was. \<open>GetConfig\<close> has no error
  result and no panic: it is a total function into values.
\<close>

theorem GetConfig_default:
  assumes "environ w (''APP_'' @ ToUpper um section @ ''_'' @ ToUpper um key) = None"
    and "\<forall>sectionMap. config w section = Some sectionMap \<longrightarrow> sectionMap key = None"
  shows "GetConfig um section key defaultValue w = (defaultValue, w)"
proof (cases "config w section")
  case None
  with assms(1) show ?thesis by (simp add: GetConfig_def)
next
  case (Some sectionMap)
  with assms(2) have "sectionMap key = None" by simp
  with Some assms(1) show ?thesis by (simp add: GetConfig_def)
qed

theorem GetConfig_default_witness:
  "GetConfig id ''app'' ''port'' (AInt 50100) emptyWorld = (AInt 50100, emptyWorld) \<and>
   GetConfig id ''app'' ''port'' (ABool True) emptyWorld = (ABool True, emptyWorld) \<and>
   GetConfig id ''app'' ''port'' (AString ''x'') emptyWorld = (AString ''x'', emptyWorld)"
proof -
  have h: "environ emptyWorld (''APP_'' @ ToUpper id ''app'' @ ''_'' @ ToUpper id ''port'') = None"
    by (simp add: emptyWorld_def)
  have g: "\<forall>sectionMap. config emptyWorld ''app'' = Some sectionMap \<longrightarrow> sectionMap ''port'' = None"
    by (simp add: emptyWorld_def)
  from GetConfig_default [OF h g] show ?thesis by simp
qed

text \<open>
  Claim C8. No lookup changes the store: \<open>GetConfig\<close>, \<open>getIntConfig\<close> and
  \<open>getBoolConfig\<close> return the process exactly as they found it, so the map of maps
  \<open>config\<close> after the call is the one before the call, for every section, key and default.
\<close>

theorem lookups_leave_world:
  "snd (GetConfig um section key defaultValue w) = w \<and>
   snd (getIntConfig um section key intDefault w) = w \<and>
   snd (getBoolConfig um lm section key boolDefault w) = w \<and>
   config (snd (GetConfig um section key defaultValue w)) = config w \<and>
   config (snd (getIntConfig um section key intDefault w)) = config w \<and>
   config (snd (getBoolConfig um lm section key boolDefault w)) = config w"
proof -
  have g: "\<And>d. snd (GetConfig um section key d w) = w"
    by (simp add: GetConfig_def split: option.splits)
  have i: "snd (getIntConfig um section key intDefault w) = w"
    using g [of "AString (Sprintf_d intDefault)"]
    by (cases "GetConfig um section key (AString (Sprintf_d intDefault)) w")
      (simp add: getIntConfig_def split: any.splits option.splits)
  have b: "snd (getBoolConfig um lm section key boolDefault w) = w"
    using g [of "AString (Sprintf_t boolDefault)"]
    by (cases "GetConfig um section key (AString (Sprintf_t boolDefault)) w")
      (simp add: getBoolConfig_def Let_def split: any.splits)
  from g [of defaultValue] i b show ?thesis by simp
qed

theorem lookups_leave_world_witness:
  "config (snd (GetConfig id ''app'' ''port'' (AInt 50100) appWorld)) = config appWorld \<and>
   config (snd (getIntConfig id ''app'' ''port'' 50100 appWorld)) = config appWorld \<and>
   config (snd (getBoolConfig id id ''app'' ''debug'' False appWorld)) = config appWorld"
  using lookups_leave_world [of id "''app''" "''port''" "AInt 50100" appWorld 50100]
    lookups_leave_world [of id "''app''" "''debug''" "AInt 50100" appWorld 50100 id False]
  by simp


subsection \<open>Decimal numbers\<close>

lemma digitChar_digit:
  assumes "0 \<le> d" and "d < 10"
  shows "isDigit (digitChar d) \<and> digitVal (digitChar d) = d"
proof -
  from assms
  have "d = 0 \<or> d = 1 \<or> d = 2 \<or> d = 3 \<or> d = 4 \<or> d = 5 \<or> d = 6 \<or> d = 7 \<or> d = 8 \<or> d = 9"
    by arith
  then show ?thesis
    by (elim disjE) (simp_all add: digitChar_def isDigit_def digitVal_def)
qed

lemma isDigit_not_sign:
  assumes "isDigit c"
  shows "c \<noteq> CHR ''-'' \<and> c \<noteq> CHR ''+''"
  using assms by (auto simp: isDigit_def)

lemma decimal_props:
  assumes "0 \<le> n"
  shows "decimal n \<noteq> [] \<and> list_all isDigit (decimal n) \<and>
         foldl (\<lambda>a c. 10 * a + digitVal c) 0 (decimal n) = n"
  using assms
proof (induction n rule: decimal.induct)
  case (1 n)
  show ?case
  proof (cases "n < 10")
    case True
    with "1.prems" digitChar_digit [of n] show ?thesis
      by (simp add: decimal.simps [of n])
  next
    case False
    with "1.prems" have "0 \<le> n div 10" by simp
    with "1.IH" False have ih: "decimal (n div 10) \<noteq> []" "list_all isDigit (decimal (n div 10))"
      "foldl (\<lambda>a c. 10 * a + digitVal c) 0 (decimal (n div 10)) = n div 10"
      by simp_all
    have "0 \<le> n mod 10" and "n mod 10 < 10" by simp_all
    with digitChar_digit [of "n mod 10"]
    have d: "isDigit (digitChar (n mod 10))" "digitVal (digitChar (n mod 10)) = n mod 10"
      by simp_all
    from False ih d show ?thesis
      by (simp add: decimal.simps [of n])
  qed
qed

lemma Atoi_decimal:
  assumes "0 \<le> n" and "n < 2 ^ 63"
  shows "Atoi (decimal n) = Some (word_of_int n)"
proof -
  from decimal_props [OF assms(1)] have ne: "decimal n \<noteq> []"
    and ds: "list_all isDigit (decimal n)"
    and v: "foldl (\<lambda>a c. 10 * a + digitVal c) 0 (decimal n) = n"
    by simp_all
  from ne ds have "isDigit (hd (decimal n))" by (cases "decimal n") simp_all
  then have "hd (decimal n) \<noteq> CHR ''-''" and "hd (decimal n) \<noteq> CHR ''+''"
    by (simp_all add: isDigit_not_sign)
  with ne ds v assms show ?thesis
    by (simp add: Atoi_def Let_def)
qed

lemma Atoi_minus_decimal:
  assumes "0 < n" and "n \<le> 2 ^ 63"
  shows "Atoi (CHR ''-'' # decimal n) = Some (word_of_int (- n))"
proof -
  from assms(1) have "0 \<le> n" by simp
  from decimal_props [OF this] have ne: "decimal n \<noteq> []"
    and ds: "list_all isDigit (decimal n)"
    and v: "foldl (\<lambda>a c. 10 * a + digitVal c) 0 (decimal n) = n"
    by simp_all
  with assms show ?thesis
    by (simp add: Atoi_def Let_def)
qed

lemma Atoi_Sprintf_d: "Atoi (Sprintf_d v) = Some v"
proof -
  have lo: "- (2 ^ 63) \<le> sint v" using sint_ge [of v] by simp
  have hi: "sint v < 2 ^ 63" using sint_lt [of v] by simp
  show ?thesis
  proof (cases "sint v < 0")
    case True
    with lo have "Atoi (CHR ''-'' # decimal (- sint v)) = Some (word_of_int (- (- sint v)))"
      by (intro Atoi_minus_decimal) simp_all
    with True show ?thesis by (simp add: Sprintf_d_def)
  next
    case False
    with hi have "Atoi (decimal (sint v)) = Some (word_of_int (sint v))"
      by (intro Atoi_decimal) simp_all
    with False show ?thesis by (simp add: Sprintf_d_def)
  qed
qed

subsection \<open>The typed accessors\<close>

lemma GetConfig_string:
  "\<exists>s. fst (GetConfig um section key (AString x) w) = AString s"
  by (simp add: GetConfig_def split: option.splits)

lemma GetConfig_file_value:
  assumes "environ w (''APP_'' @ ToUpper um section @ ''_'' @ ToUpper um key) = None"
    and "config w section = Some m" and "m key = Some v"
  shows "GetConfig um section key defaultValue w = (AString v, w)"
  using assms by (simp add: GetConfig_def)

text \<open>
  Claim C4. \<open>getIntConfig\<close> gives \<open>GetConfig\<close> the default written in decimal; what comes
  back is a string, which \<open>strconv.Atoi\<close> reads: the result is the number read, or the
  default of the caller when the string is not a number. \<open>Atoi\<close> reads the decimal form of
  every integer back as that integer, and it rejects \<open>not-a-number\<close>, so that with this
  value in the file and no variable in the environment the result is the default.
\<close>

theorem getIntConfig_parses:
  "(\<exists>s. fst (GetConfig um section key (AString (Sprintf_d d)) w) = AString s \<and>
        fst (getIntConfig um section key d w) = (case Atoi s of None \<Rightarrow> d | Some n \<Rightarrow> n)) \<and>
   Atoi (Sprintf_d d) = Some d \<and>
   Atoi ''not-a-number'' = None \<and>
   (environ w (''APP_'' @ ToUpper um section @ ''_'' @ ToUpper um key) = None \<and>
    config w section = Some m \<and> m key = Some ''not-a-number'' \<longrightarrow>
      fst (getIntConfig um section key d w) = d)"
proof -
  obtain s where s: "fst (GetConfig um section key (AString (Sprintf_d d)) w) = AString s"
    using GetConfig_string by blast
  have r: "fst (getIntConfig um section key d w) = (case Atoi s of None \<Rightarrow> d | Some n \<Rightarrow> n)"
    using s
    by (cases "GetConfig um section key (AString (Sprintf_d d)) w")
      (simp add: getIntConfig_def split: option.splits)
  have n: "Atoi ''not-a-number'' = None" by code_simp
  have f: "fst (getIntConfig um section key d w) = d"
    if "environ w (''APP_'' @ ToUpper um section @ ''_'' @ ToUpper um key) = None"
      and "config w section = Some m" and "m key = Some ''not-a-number''"
  proof -
    from that have "GetConfig um section key (AString (Sprintf_d d)) w = (AString ''not-a-number'', w)"
      by (rule GetConfig_file_value)
    with s have "s = ''not-a-number''" by simp
    with r n show ?thesis by simp
  qed
  from s r n f Atoi_Sprintf_d [of d] show ?thesis by blast
qed

theorem getIntConfig_parses_witness:
  "fst (getIntConfig id ''app'' ''port'' 50100 badWorld) = 50100 \<and>
   fst (getIntConfig id ''app'' ''port'' 50100 appWorld) = 8080 \<and>
   Atoi (Sprintf_d 50100) = Some 50100"
proof -
  have e: "environ badWorld (''APP_'' @ ToUpper id ''app'' @ ''_'' @ ToUpper id ''port'') = None"
    "environ appWorld (''APP_'' @ ToUpper id ''app'' @ ''_'' @ ToUpper id ''port'') = None"
    by (simp_all add: badWorld_def appWorld_def emptyWorld_def)
  have b: "config badWorld ''app'' = Some [''port'' \<mapsto> ''not-a-number'', ''debug'' \<mapsto> ''maybe'']"
    "[''port'' \<mapsto> ''not-a-number'', ''debug'' \<mapsto> ''maybe''] ''port'' = Some ''not-a-number''"
    by (simp_all add: badWorld_def emptyWorld_def)
  have a: "config appWorld ''app'' = Some [''port'' \<mapsto> ''8080'', ''debug'' \<mapsto> ''YES'']"
    "[''port'' \<mapsto> ''8080'', ''debug'' \<mapsto> ''YES''] ''port'' = Some ''8080''"
    by (simp_all add: appWorld_def emptyWorld_def)
  have p: "Atoi ''8080'' = Some 8080" by code_simp
  note t1 = getIntConfig_parses [of id "''app''" "''port''" 50100 badWorld
      "[''port'' \<mapsto> ''not-a-number'', ''debug'' \<mapsto> ''maybe'']"]
  note t2 = getIntConfig_parses [of id "''app''" "''port''" 50100 appWorld]
  from t1 e(1) b have c1: "fst (getIntConfig id ''app'' ''port'' 50100 badWorld) = 50100"
    by blast
  from t2 obtain s
    where s: "fst (GetConfig id ''app'' ''port'' (AString (Sprintf_d 50100)) appWorld) = AString s"
      and r: "fst (getIntConfig id ''app'' ''port'' 50100 appWorld) =
                (case Atoi s of None \<Rightarrow> 50100 | Some n \<Rightarrow> n)"
    by blast
  from GetConfig_file_value [OF e(2) a] s have "s = ''8080''" by simp
  with r p have c2: "fst (getIntConfig id ''app'' ''port'' 50100 appWorld) = 8080" by simp
  from t2 have c3: "Atoi (Sprintf_d 50100) = Some 50100" by blast
  from c1 c2 c3 show ?thesis by simp
qed

text \<open>
  Claim C3. \<open>getBoolConfig\<close> gives \<open>GetConfig\<close> the default written as \<open>true\<close> or \<open>false\<close>;
  what comes back is a string, which is trimmed of white space and put in lower case.
  The words \<open>true\<close>, \<open>1\<close>, \<open>yes\<close> and \<open>on\<close> give true, the words \<open>false\<close>, \<open>0\<close>, \<open>no\<close> and
  \<open>off\<close> give false, and any other string gives the default of the caller. With \<open>YES\<close> in
  the file for \<open>app.debug\<close> and no variable in the environment, the result is true.
\<close>

theorem getBoolConfig_normalises:
  "(\<exists>s. fst (GetConfig um section key (AString (Sprintf_t d)) w) = AString s \<and>
        fst (getBoolConfig um lm section key d w) =
          (if ToLower lm (TrimSpace s) \<in> {''true'', ''1'', ''yes'', ''on''} then True
           else if ToLower lm (TrimSpace s) \<in> {''false'', ''0'', ''no'', ''off''} then False
           else d)) \<and>
   (environ w ''APP_APP_DEBUG'' = None \<and> config w ''app'' = Some m \<and> m ''debug'' = Some ''YES'' \<longrightarrow>
      fst (getBoolConfig um lm ''app'' ''debug'' d w) = True)"
proof -
  have r: "fst (getBoolConfig um lm sec k d w) =
          (if ToLower lm (TrimSpace s) \<in> {''true'', ''1'', ''yes'', ''on''} then True
           else if ToLower lm (TrimSpace s) \<in> {''false'', ''0'', ''no'', ''off''} then False
           else d)"
    if "fst (GetConfig um sec k (AString (Sprintf_t d)) w) = AString s" for sec k s
    using that
    by (cases "GetConfig um sec k (AString (Sprintf_t d)) w")
      (simp add: getBoolConfig_def Let_def)
  obtain s where s: "fst (GetConfig um section key (AString (Sprintf_t d)) w) = AString s"
    using GetConfig_string by blast
  have y: "fst (getBoolConfig um lm ''app'' ''debug'' d w) = True"
    if "environ w ''APP_APP_DEBUG'' = None" and "config w ''app'' = Some m"
      and "m ''debug'' = Some ''YES''"
  proof -
    from that(1)
    have "environ w (''APP_'' @ ToUpper um ''app'' @ ''_'' @ ToUpper um ''debug'') = None"
      unfolding envKey_app_debug .
    from GetConfig_file_value [OF this that(2,3)]
    have "fst (GetConfig um ''app'' ''debug'' (AString (Sprintf_t d)) w) = AString ''YES''"
      by simp
    from r [OF this] have g: "fst (getBoolConfig um lm ''app'' ''debug'' d w) =
          (if ToLower lm (TrimSpace ''YES'') \<in> {''true'', ''1'', ''yes'', ''on''} then True
           else if ToLower lm (TrimSpace ''YES'') \<in> {''false'', ''0'', ''no'', ''off''} then False
           else d)" .
    have t: "TrimSpace ''YES'' = ''YES''" and a: "isASCII ''YES''"
      and l: "map lowerByte ''YES'' = ''yes''"
      by code_simp+
    from a l have "ToLower lm (TrimSpace ''YES'') = ''yes''"
      unfolding t by (simp add: ToLower_def)
    with g show ?thesis by simp
  qed
  from r [OF s] s y show ?thesis by blast
qed

theorem getBoolConfig_normalises_witness:
  "init (worldWithFile [''[app]'', ''debug = YES''] None) =
     Inr ((worldWithFile [''[app]'', ''debug = YES''] None)
            \<lparr>config := [''app'' \<mapsto> [''debug'' \<mapsto> ''YES'']]\<rparr>) \<and>
   fst (getBoolConfig id id ''app'' ''debug'' False
          ((worldWithFile [''[app]'', ''debug = YES''] None)
             \<lparr>config := [''app'' \<mapsto> [''debug'' \<mapsto> ''YES'']]\<rparr>)) = True \<and>
   fst (getBoolConfig id id ''app'' ''debug'' True badWorld) = True \<and>
   fst (getBoolConfig id id ''app'' ''debug'' False badWorld) = False \<and>
   fst (getBoolConfig id id ''app'' ''debug'' False envWorld) = True"
proof -
  define W where "W = worldWithFile [''[app]'', ''debug = YES''] None"
  define W' where "W' = W\<lparr>config := [''app'' \<mapsto> [''debug'' \<mapsto> ''YES'']]\<rparr>"
  have p: "getConfigFilePath W = Inr ''/srv/config/config.ini''"
    unfolding W_def by (rule getConfigFilePath_worldWithFile)
  have c: "config W = Map.empty"
    and f: "files W ''/srv/config/config.ini'' = Inr ([''[app]'', ''debug = YES''], None)"
    by (simp_all add: W_def worldWithFile_def emptyWorld_def)
  have i: "init W = Inr W'"
    unfolding W'_def by (rule init_parsed [OF p f parse_app_debug [OF c]])
  have e: "environ W' ''APP_APP_DEBUG'' = None"
    and m: "config W' ''app'' = Some [''debug'' \<mapsto> ''YES'']"
    and v: "[''debug'' \<mapsto> ''YES''] ''debug'' = Some ''YES''"
    by (simp_all add: W'_def W_def worldWithFile_def emptyWorld_def)
  from getBoolConfig_normalises [of id "''app''" "''debug''" False W' id "[''debug'' \<mapsto> ''YES'']"] e m v
  have y: "fst (getBoolConfig id id ''app'' ''debug'' False W') = True"
    by blast
  have eb: "environ badWorld (''APP_'' @ ToUpper id ''app'' @ ''_'' @ ToUpper id ''debug'') = None"
    unfolding envKey_app_debug by (simp add: badWorld_def emptyWorld_def)
  have mb: "config badWorld ''app'' = Some [''port'' \<mapsto> ''not-a-number'', ''debug'' \<mapsto> ''maybe'']"
    "[''port'' \<mapsto> ''not-a-number'', ''debug'' \<mapsto> ''maybe''] ''debug'' = Some ''maybe''"
    by (simp_all add: badWorld_def emptyWorld_def)
  have nb: "ToLower id (TrimSpace ''maybe'') = ''maybe''" by code_simp
  have b: "fst (getBoolConfig id id ''app'' ''debug'' x badWorld) = x" for x
  proof -
    from getBoolConfig_normalises [of id "''app''" "''debug''" x badWorld id]
    obtain s where s: "fst (GetConfig id ''app'' ''debug'' (AString (Sprintf_t x)) badWorld) = AString s"
      and r: "fst (getBoolConfig id id ''app'' ''debug'' x badWorld) =
          (if ToLower id (TrimSpace s) \<in> {''true'', ''1'', ''yes'', ''on''} then True
           else if ToLower id (TrimSpace s) \<in> {''false'', ''0'', ''no'', ''off''} then False
           else x)"
      by blast
    from GetConfig_file_value [OF eb mb] s have "s = ''maybe''" by simp
    with r nb show ?thesis by simp
  qed
  have ee: "environ envWorld (''APP_'' @ ToUpper id ''app'' @ ''_'' @ ToUpper id ''debug'') = Some '' On ''"
    unfolding envKey_app_debug by (simp add: envWorld_def emptyWorld_def)
  have ne: "ToLower id (TrimSpace '' On '') = ''on''" by code_simp
  have o: "fst (getBoolConfig id id ''app'' ''debug'' False envWorld) = True"
  proof -
    from getBoolConfig_normalises [of id "''app''" "''debug''" False envWorld id]
    obtain s where s: "fst (GetConfig id ''app'' ''debug'' (AString (Sprintf_t False)) envWorld) = AString s"
      and r: "fst (getBoolConfig id id ''app'' ''debug'' False envWorld) =
          (if ToLower id (TrimSpace s) \<in> {''true'', ''1'', ''yes'', ''on''} then True
           else if ToLower id (TrimSpace s) \<in> {''false'', ''0'', ''no'', ''off''} then False
           else False)"
      by blast
    from ee have "fst (GetConfig id ''app'' ''debug'' (AString (Sprintf_t False)) envWorld) = AString '' On ''"
      by (simp add: GetConfig_def)
    with s have "s = '' On ''" by simp
    with r ne show ?thesis by simp
  qed
  from i y b [of True] b [of False] o show ?thesis
    unfolding W'_def W_def by simp
qed

end
